theory Spec2Isabelle
  imports Complex_Main "HOL-Library.Multiset" "HOL-Library.Log_Nat"
begin

section \<open>Numbers, boxes and images\<close>

text \<open>
  A TypeScript \<open>number\<close> is an IEEE-754 double. Its finite values are rationals, and the
  model keeps them in \<^typ>\<open>rat\<close>. The canvas height is the integer part of a quotient and
  a product, so there the rounding of each operation decides the result: \<open>toDouble\<close> rounds
  a rational to the nearest double (53 significant bits, ties to even), and the quotient
  and the product of \<open>draw\<close> are the rounded ones, \<open>divDouble\<close> and \<open>mulDouble\<close>. The
  exponent range is not limited: overflow to \<open>Infinity\<close> and gradual underflow are outside
  the model, far from every value that sizes below \<open>2^32\<close> produce. A quotient by zero is
  \<open>Infinity\<close> or \<open>NaN\<close> in JavaScript and 0 in HOL, so every statement about the value of the
  scale factor assumes a positive natural width. The other products and differences of
  the source (the corners of a box, the sizes of the simulated boxes) are written with
  the exact operations; what is stated of them is which expressions the code evaluates.
\<close>

text \<open>The integer nearest to \<open>y\<close>, the even one of the two when \<open>y\<close> lies half way.\<close>

definition roundTiesToEven :: "rat \<Rightarrow> int" where
  "roundTiesToEven y =
     (let n = \<lfloor>y\<rfloor>; f = y - of_int n
      in if f < 1 / 2 then n else if 1 / 2 < f then n + 1 else if even n then n else n + 1)"

text \<open>For \<open>x > 0\<close>, the exponent \<open>e\<close> with \<open>2^e \<le> x < 2^(e + 1)\<close>.\<close>

definition binade :: "rat \<Rightarrow> int" where
  "binade x =
     (case quotient_of x of (p, q) \<Rightarrow>
        let d = bitlen p - bitlen q in if 2 powi d \<le> x then d else d - 1)"

definition toDouble :: "rat \<Rightarrow> rat" where
  "toDouble x =
     (if x = 0 then 0
      else let ulp = 2 powi (binade \<bar>x\<bar> - 52)
           in sgn x * (of_int (roundTiesToEven (\<bar>x\<bar> / ulp)) * ulp))"

definition divDouble :: "rat \<Rightarrow> rat \<Rightarrow> rat" where
  "divDouble a b = toDouble (a / b)"

definition mulDouble :: "rat \<Rightarrow> rat \<Rightarrow> rat" where
  "mulDouble a b = toDouble (a * b)"

text \<open>
  \<open>types.ts\<close>: \<open>export type BoundingBox = [number, number, number, number]; // [x1, y1, x2, y2]\<close>
\<close>

type_synonym BoundingBox = "rat \<times> rat \<times> rat \<times> rat"

text \<open>
  An \<open>HTMLImageElement\<close> that has fired \<open>onload\<close>: the source it was given and its natural
  size (both \<open>unsigned long\<close> attributes).
\<close>

record image =
  src :: string
  naturalWidth :: nat
  naturalHeight :: nat

text \<open>The container \<open>div\<close>: only its \<open>clientWidth\<close> (an integer number of pixels) is read.\<close>

record container =
  clientWidth :: nat

section \<open>The drawing surface\<close>

text \<open>
  The state of the 2D context that \<open>draw\<close> writes, with the values a fresh or reset context
  has.
\<close>

record context2d =
  strokeStyle :: string
  fillStyle :: string
  lineWidth :: rat
  lineJoin :: string

definition default_context :: context2d where
  "default_context =
     \<lparr>strokeStyle = ''#000000'', fillStyle = ''#000000'', lineWidth = 1, lineJoin = ''miter''\<rparr>"

text \<open>
  A painting call, recorded with the context state it was issued under. Canvas painting is
  immediate-mode: the surface's content is the calls since the last clear, composited in
  the order they were issued.
\<close>

datatype paint =
    DrawImage image rat rat rat rat
  | StrokeRect string rat string rat rat rat rat
  | FillRect string rat rat rat rat

text \<open>
  The canvas element: its \<open>width\<close> and \<open>height\<close> attributes, whether \<open>getContext('2d')\<close>
  yields a context, the context's state, and the painting calls on its bitmap.
\<close>

record canvas =
  width :: nat
  height :: nat
  has2d :: bool
  state :: context2d
  bitmap :: "paint list"

text \<open>
  \<open>canvas.width\<close> and \<open>canvas.height\<close> are \<open>unsigned long\<close> attributes. Assigning a number
  converts it as WebIDL does (the integer part, towards zero, modulo \<open>2^32\<close>); a result above
  \<open>2147483647\<close> is replaced by the attribute's default (300 for the width, 150 for the
  height). Assigning either attribute clears the bitmap and resets the context state.
\<close>

definition integerPart :: "rat \<Rightarrow> int" where
  "integerPart v = (if v < 0 then - \<lfloor>- v\<rfloor> else \<lfloor>v\<rfloor>)"

definition toUnsignedLong :: "rat \<Rightarrow> int" where
  "toUnsignedLong v = integerPart v mod 2 ^ 32"

definition reflectDimension :: "nat \<Rightarrow> rat \<Rightarrow> nat" where
  "reflectDimension dflt v =
     (let n = toUnsignedLong v in if n \<le> 2147483647 then nat n else dflt)"

definition set_width :: "rat \<Rightarrow> canvas \<Rightarrow> canvas" where
  "set_width v c = c\<lparr>width := reflectDimension 300 v, state := default_context, bitmap := []\<rparr>"

definition set_height :: "rat \<Rightarrow> canvas \<Rightarrow> canvas" where
  "set_height v c = c\<lparr>height := reflectDimension 150 v, state := default_context, bitmap := []\<rparr>"

definition set_strokeStyle :: "string \<Rightarrow> canvas \<Rightarrow> canvas" where
  "set_strokeStyle s c = c\<lparr>state := (state c)\<lparr>strokeStyle := s\<rparr>\<rparr>"

definition set_fillStyle :: "string \<Rightarrow> canvas \<Rightarrow> canvas" where
  "set_fillStyle s c = c\<lparr>state := (state c)\<lparr>fillStyle := s\<rparr>\<rparr>"

text \<open>A line width that is not positive is ignored by the context.\<close>

definition set_lineWidth :: "rat \<Rightarrow> canvas \<Rightarrow> canvas" where
  "set_lineWidth v c = (if 0 < v then c\<lparr>state := (state c)\<lparr>lineWidth := v\<rparr>\<rparr> else c)"

definition set_lineJoin :: "string \<Rightarrow> canvas \<Rightarrow> canvas" where
  "set_lineJoin s c = c\<lparr>state := (state c)\<lparr>lineJoin := s\<rparr>\<rparr>"

definition drawImage :: "image \<Rightarrow> rat \<Rightarrow> rat \<Rightarrow> rat \<Rightarrow> rat \<Rightarrow> canvas \<Rightarrow> canvas" where
  "drawImage img dx dy dw dh c = c\<lparr>bitmap := bitmap c @ [DrawImage img dx dy dw dh]\<rparr>"

definition strokeRect :: "rat \<Rightarrow> rat \<Rightarrow> rat \<Rightarrow> rat \<Rightarrow> canvas \<Rightarrow> canvas" where
  "strokeRect x y w h c =
     c\<lparr>bitmap := bitmap c @
        [StrokeRect (strokeStyle (state c)) (lineWidth (state c)) (lineJoin (state c)) x y w h]\<rparr>"

definition fillRect :: "rat \<Rightarrow> rat \<Rightarrow> rat \<Rightarrow> rat \<Rightarrow> canvas \<Rightarrow> canvas" where
  "fillRect x y w h c = c\<lparr>bitmap := bitmap c @ [FillRect (fillStyle (state c)) x y w h]\<rparr>"

text \<open>A canvas element as the document creates it: 300 by 150, nothing painted.\<close>

definition blankCanvas :: canvas where
  "blankCanvas =
     \<lparr>width = 300, height = 150, has2d = True, state = default_context, bitmap = []\<rparr>"

section \<open>DetectionCanvas.draw\<close>

text \<open>
  The body of the \<open>detections.forEach\<close> callback (lines 45 to 62): one box, painted on the
  canvas \<open>c\<close> with the scale factor of the enclosing call. The source's locals \<open>width\<close>
  and \<open>height\<close> are \<open>boxWidth\<close> and \<open>boxHeight\<close> here.
\<close>

fun drawBox :: "rat \<Rightarrow> canvas \<Rightarrow> BoundingBox \<Rightarrow> canvas" where
  "drawBox scaleFactor c (x1, y1, x2, y2) =
     (let boxWidth = (x2 - x1) * scaleFactor;
          boxHeight = (y2 - y1) * scaleFactor;
          c = set_strokeStyle ''rgba(0,0,0,0.5)'' c;
          c = set_lineWidth 5 c;
          c = strokeRect (x1 * scaleFactor) (y1 * scaleFactor) boxWidth boxHeight c;
          c = set_strokeStyle ''#4ade80'' c;
          c = set_lineWidth 2 c;
          c = strokeRect (x1 * scaleFactor) (y1 * scaleFactor) boxWidth boxHeight c;
          c = set_fillStyle ''rgba(74, 222, 128, 0.15)'' c
      in fillRect (x1 * scaleFactor) (y1 * scaleFactor) boxWidth boxHeight c)"

text \<open>Lines 30 to 62: what \<open>draw\<close> does once all its handles are there.\<close>

definition drawFrame :: "canvas \<Rightarrow> container \<Rightarrow> image \<Rightarrow> BoundingBox list \<Rightarrow> canvas" where
  "drawFrame canvas container imageObj detections =
     (let containerWidth = clientWidth container;
          scaleFactor = divDouble (of_nat containerWidth) (of_nat (naturalWidth imageObj));
          displayHeight = mulDouble (of_nat (naturalHeight imageObj)) scaleFactor;
          c = set_width (of_nat containerWidth) canvas;
          c = set_height displayHeight c;
          c = drawImage imageObj 0 0 (of_nat (width c)) (of_nat (height c)) c;
          c = set_strokeStyle ''#22c55e'' c;
          c = set_lineWidth 3 c;
          c = set_lineJoin ''round'' c
      in foldl (drawBox scaleFactor) c detections)"

text \<open>
  \<open>draw\<close> (lines 21 to 63). \<open>canvasRef.current\<close>, \<open>containerRef.current\<close> and \<open>imageObj\<close>
  may each be \<open>null\<close>; the canvas is the one object the call mutates, so the function
  returns the canvas reference after the call. The source has no \<open>throw\<close>, and every
  property access follows the null guards of lines 24 and 27, so the call has no outcome
  but a canvas state.
\<close>

fun draw :: "canvas option \<Rightarrow> container option \<Rightarrow> image option \<Rightarrow> BoundingBox list
    \<Rightarrow> canvas option" where
  "draw (Some canvas) (Some container) (Some imageObj) detections =
     (if \<not> has2d canvas then Some canvas
      else Some (drawFrame canvas container imageObj detections))"
| "draw canvasRef containerRef imageObj detections = canvasRef"

section \<open>Canvas painting semantics\<close>

text \<open>
  What the painting calls put on the surface, sampled at a point: the colour values of the
  style strings, the region each call covers, and source-over compositing in call order.
  This part follows the HTML canvas standard, not code of the repository; sampling is at
  points, without anti-aliasing.
\<close>

type_synonym rgba = "rat \<times> rat \<times> rat \<times> rat"

text \<open>
  CSS colour values, for the two notations the source writes: \<open>#rrggbb\<close> and
  \<open>rgba(r, g, b, a)\<close> with unsigned decimal numbers. Channels are in 0..255, alpha in 0..1.
\<close>

definition digitOf :: "char \<Rightarrow> nat option" where
  "digitOf c =
     (let n = (of_char c :: nat) in if 48 \<le> n \<and> n \<le> 57 then Some (n - 48) else None)"

definition hexDigitOf :: "char \<Rightarrow> nat option" where
  "hexDigitOf c =
     (let n = (of_char c :: nat) in
      if 48 \<le> n \<and> n \<le> 57 then Some (n - 48)
      else if 97 \<le> n \<and> n \<le> 102 then Some (n - 87)
      else if 65 \<le> n \<and> n \<le> 70 then Some (n - 55)
      else None)"

fun digitsValue :: "nat \<Rightarrow> string \<Rightarrow> nat option" where
  "digitsValue acc [] = Some acc"
| "digitsValue acc (c # cs) =
     (case digitOf c of None \<Rightarrow> None | Some d \<Rightarrow> digitsValue (10 * acc + d) cs)"

definition decimal :: "string \<Rightarrow> rat option" where
  "decimal s =
     (let ip = takeWhile (\<lambda>c. c \<noteq> CHR ''.'') s;
          rest = dropWhile (\<lambda>c. c \<noteq> CHR ''.'') s
      in if rest = [] then (if ip = [] then None else map_option of_nat (digitsValue 0 ip))
         else if tl rest = [] then None
         else (case (digitsValue 0 ip, digitsValue 0 (tl rest)) of
                 (Some a, Some b) \<Rightarrow> Some (of_nat a + of_nat b / 10 ^ length (tl rest))
               | _ \<Rightarrow> None))"

fun splitOn :: "char \<Rightarrow> string \<Rightarrow> string list" where
  "splitOn d [] = [[]]"
| "splitOn d (c # cs) =
     (if c = d then [] # splitOn d cs
      else (case splitOn d cs of [] \<Rightarrow> [[c]] | w # ws \<Rightarrow> (c # w) # ws))"

definition trim :: "string \<Rightarrow> string" where
  "trim s = rev (dropWhile (\<lambda>c. c = CHR '' '') (rev (dropWhile (\<lambda>c. c = CHR '' '') s)))"

definition cssColor :: "string \<Rightarrow> rgba option" where
  "cssColor s =
     (if s = [] then None
      else if hd s = CHR ''#'' then
        (case those (map hexDigitOf (tl s)) of
           Some [a, b, c, d, e, f] \<Rightarrow>
             Some (of_nat (16 * a + b), of_nat (16 * c + d), of_nat (16 * e + f), 1)
         | _ \<Rightarrow> None)
      else if take 5 s = ''rgba('' \<and> last s = CHR '')'' then
        (case those (map (\<lambda>t. decimal (trim t)) (splitOn (CHR '','') (butlast (drop 5 s)))) of
           Some [r, g, b, a] \<Rightarrow> Some (min 255 r, min 255 g, min 255 b, min 1 a)
         | _ \<Rightarrow> None)
      else None)"

text \<open>Source-over compositing of a colour \<open>s\<close> onto a backdrop \<open>d\<close>.\<close>

fun over :: "rgba \<Rightarrow> rgba \<Rightarrow> rgba" where
  "over (rs, gs, bs, as) (rd, gd, bd, ad) =
     (let ao = as + ad * (1 - as)
      in if ao = 0 then (0, 0, 0, 0)
         else ((rs * as + rd * ad * (1 - as)) / ao,
               (gs * as + gd * ad * (1 - as)) / ao,
               (bs * as + bd * ad * (1 - as)) / ao, ao))"

text \<open>How far the coordinate \<open>q\<close> lies outside the interval from \<open>lo\<close> to \<open>hi\<close>.\<close>

definition outside :: "rat \<Rightarrow> rat \<Rightarrow> rat \<Rightarrow> rat" where
  "outside lo hi q = max 0 (max (lo - q) (q - hi))"

text \<open>
  The region \<open>fillRect(x, y, w, h)\<close> paints: the rectangle between the corners \<open>(x, y)\<close>
  and \<open>(x + w, y + h)\<close>, whatever the signs of \<open>w\<close> and \<open>h\<close>; nothing when either is zero.
\<close>

fun fillCovers :: "rat \<Rightarrow> rat \<Rightarrow> rat \<Rightarrow> rat \<Rightarrow> rat \<times> rat \<Rightarrow> bool" where
  "fillCovers x y w h (px, py) =
     (w \<noteq> 0 \<and> h \<noteq> 0 \<and>
      outside (min x (x + w)) (max x (x + w)) px = 0 \<and>
      outside (min y (y + h)) (max y (y + h)) py = 0)"

text \<open>
  The region \<open>strokeRect(x, y, w, h)\<close> paints with line width \<open>lw\<close>: the points within
  \<open>lw / 2\<close> of the rectangle's outline, the corners shaped by the line join. With both
  extents zero there is nothing to stroke; with one of them zero the outline is a straight
  line with butt caps.
\<close>

fun strokeCovers :: "rat \<Rightarrow> string \<Rightarrow> rat \<Rightarrow> rat \<Rightarrow> rat \<Rightarrow> rat \<Rightarrow> rat \<times> rat \<Rightarrow> bool" where
  "strokeCovers lw lj x y w h (px, py) =
     (let r = lw / 2;
          xlo = min x (x + w); xhi = max x (x + w);
          ylo = min y (y + h); yhi = max y (y + h);
          dx = outside xlo xhi px; dy = outside ylo yhi py
      in if w = 0 \<and> h = 0 then False
         else if w = 0 then dx \<le> r \<and> dy = 0
         else if h = 0 then dy \<le> r \<and> dx = 0
         else if dx = 0 \<and> dy = 0 then
           min (min (px - xlo) (xhi - px)) (min (py - ylo) (yhi - py)) \<le> r
         else if lj = ''round'' then dx * dx + dy * dy \<le> r * r
         else if lj = ''bevel'' then dx \<le> r \<and> dy \<le> r \<and> dx + dy \<le> r
         else dx \<le> r \<and> dy \<le> r)"

text \<open>
  One painting call at the point \<open>p\<close>, over the colour \<open>c\<close> already there. \<open>tex\<close> gives the
  colour of an image at a position in the unit square.
\<close>

fun paintAt :: "(image \<Rightarrow> rat \<times> rat \<Rightarrow> rgba) \<Rightarrow> rat \<times> rat \<Rightarrow> rgba \<Rightarrow> paint \<Rightarrow> rgba" where
  "paintAt tex p c (DrawImage img dx dy dw dh) =
     (if fillCovers dx dy dw dh p
      then over (tex img ((fst p - dx) / dw, (snd p - dy) / dh)) c else c)"
| "paintAt tex p c (StrokeRect style lw lj x y w h) =
     (case cssColor style of
        None \<Rightarrow> c
      | Some col \<Rightarrow> if strokeCovers lw lj x y w h p then over col c else c)"
| "paintAt tex p c (FillRect style x y w h) =
     (case cssColor style of
        None \<Rightarrow> c
      | Some col \<Rightarrow> if fillCovers x y w h p then over col c else c)"

text \<open>
  The colour of the surface at \<open>p\<close>: the calls composited in order over transparent black;
  \<open>None\<close> outside the surface.
\<close>

definition pixelAt :: "(image \<Rightarrow> rat \<times> rat \<Rightarrow> rgba) \<Rightarrow> canvas \<Rightarrow> rat \<times> rat \<Rightarrow> rgba option" where
  "pixelAt tex c p =
     (if 0 \<le> fst p \<and> fst p \<le> of_nat (width c) \<and> 0 \<le> snd p \<and> snd p \<le> of_nat (height c)
      then Some (foldl (paintAt tex p) (0, 0, 0, 0) (bitmap c)) else None)"

text \<open>
  The three calls \<open>drawBox\<close> issues for a box, and whether any of them covers the point \<open>p\<close>.
\<close>

fun boxCommands :: "rat \<Rightarrow> BoundingBox \<Rightarrow> paint list" where
  "boxCommands s (x1, y1, x2, y2) =
     [StrokeRect ''rgba(0,0,0,0.5)'' 5 ''round'' (x1 * s) (y1 * s) ((x2 - x1) * s) ((y2 - y1) * s),
      StrokeRect ''#4ade80'' 2 ''round'' (x1 * s) (y1 * s) ((x2 - x1) * s) ((y2 - y1) * s),
      FillRect ''rgba(74, 222, 128, 0.15)'' (x1 * s) (y1 * s) ((x2 - x1) * s) ((y2 - y1) * s)]"

fun boxTouches :: "rat \<Rightarrow> rat \<times> rat \<Rightarrow> BoundingBox \<Rightarrow> bool" where
  "boxTouches s p (x1, y1, x2, y2) =
     (strokeCovers 5 ''round'' (x1 * s) (y1 * s) ((x2 - x1) * s) ((y2 - y1) * s) p \<or>
      strokeCovers 2 ''round'' (x1 * s) (y1 * s) ((x2 - x1) * s) ((y2 - y1) * s) p \<or>
      fillCovers (x1 * s) (y1 * s) ((x2 - x1) * s) ((y2 - y1) * s) p)"

text \<open>The rectangle a painting call is given, as origin and signed size, and its signed area.\<close>

fun paintRect :: "paint \<Rightarrow> rat \<times> rat \<times> rat \<times> rat" where
  "paintRect (DrawImage img dx dy dw dh) = (dx, dy, dw, dh)"
| "paintRect (StrokeRect style lw lj x y w h) = (x, y, w, h)"
| "paintRect (FillRect style x y w h) = (x, y, w, h)"


section \<open>The image loader of DetectionCanvas\<close>

text \<open>
  Lines 13 to 19. The component holds the \<open>imageSrc\<close> prop and the \<open>imageObj\<close> state. The
  effect of line 15 runs at mount and whenever \<open>imageSrc\<close> changes: it creates an \<open>Image\<close>,
  sets its \<open>src\<close> and registers \<open>onload\<close>; \<open>loading\<close> lists the sources of the images
  created whose \<open>onload\<close> has not fired yet. The effect returns no cleanup function.
\<close>

record component =
  imageSrc :: string
  imageObj :: "image option"
  loading :: "string list"

datatype event =
    Supply string
  | Loaded image

definition mount :: "string \<Rightarrow> component" where
  "mount s = \<lparr>imageSrc = s, imageObj = None, loading = [s]\<rparr>"

text \<open>
  \<open>Supply s\<close>: the parent renders the component with \<open>imageSrc = s\<close>. \<open>Loaded img\<close>: the
  \<open>onload\<close> handler of an image in flight runs, \<open>() => setImageObj(img)\<close>; an image that is
  not in flight has no handler to run.
\<close>

fun step :: "component \<Rightarrow> event \<Rightarrow> component" where
  "step st (Supply s) =
     (if s = imageSrc st then st else st\<lparr>imageSrc := s, loading := loading st @ [s]\<rparr>)"
| "step st (Loaded img) =
     (if src img \<in> set (loading st)
      then st\<lparr>imageObj := Some img, loading := remove1 (src img) (loading st)\<rparr>
      else st)"

definition run :: "component \<Rightarrow> event list \<Rightarrow> component" where
  "run st evs = foldl step st evs"

section \<open>App.generateMockDetections\<close>

text \<open>
  \<open>types.ts\<close>: \<open>DetectionResponse\<close>. The count is a whole number (\<open>Math.floor(...) + 15\<close>), kept as
  an \<^typ>\<open>int\<close>.
\<close>

record DetectionResponse =
  log_count :: int
  detections :: "BoundingBox list"

text \<open>
  The \<open>for\<close> loop of lines 32 to 37. \<open>rnd k\<close> is what the \<open>k\<close>-th call of \<open>Math.random()\<close>
  returns; \<open>k\<close> counts the calls made so far. The source's \<open>width\<close>, \<open>height\<close>,
  \<open>count\<close>, \<open>size\<close> and \<open>detections\<close> are \<open>w\<close>, \<open>h\<close>, \<open>cnt\<close>, \<open>sz\<close> and \<open>acc\<close> here.
\<close>

function mockLoop :: "(nat \<Rightarrow> rat) \<Rightarrow> nat \<Rightarrow> rat \<Rightarrow> rat \<Rightarrow> int \<Rightarrow> int \<Rightarrow> BoundingBox list
    \<Rightarrow> BoundingBox list" where
  "mockLoop rnd k w h cnt i acc =
     (if i < cnt then
        (let sz = rnd k * (w * (1 / 10)) + (w * (1 / 20));
             x = rnd (k + 1) * (w - sz);
             y = rnd (k + 2) * (h - sz)
         in mockLoop rnd (k + 3) w h cnt (i + 1) (acc @ [(x, y, x + sz, y + sz)]))
      else acc)"
  by pat_completeness auto
termination
  by (relation "measure (\<lambda>(rnd, k, w, h, cnt, i, acc). nat (cnt - i))") auto

text \<open>
  Lines 26 to 38, for an image whose \<open>onload\<close> has fired: the value the promise resolves
  with. The one-second delay of \<open>setTimeout\<close> is not modelled.
\<close>

definition generateMockDetections :: "(nat \<Rightarrow> rat) \<Rightarrow> image \<Rightarrow> DetectionResponse" where
  "generateMockDetections rnd img =
     (let w = of_nat (naturalWidth img);
          h = of_nat (naturalHeight img);
          cnt = \<lfloor>rnd 0 * 10\<rfloor> + 15
      in \<lparr>log_count = cnt, detections = mockLoop rnd 1 w h cnt 0 []\<rparr>)"

section \<open>Rounding to doubles\<close>

lemma pow2_diff: "(2::rat) powi (m - n) = 2 powi m / 2 powi n"
  by (simp add: power_int_diff)

lemma bitlen_pos: "0 < p \<Longrightarrow> 1 \<le> bitlen p"
  using bitlen_nonneg [of p] bitlen_eq_zero_iff [of p] by linarith

lemma bitlen_powi:
  assumes "0 < p"
  shows "2 powi (bitlen p - 1) \<le> (of_int p :: rat)" and "(of_int p :: rat) < 2 powi bitlen p"
proof -
  have b: "2 ^ nat (bitlen p - 1) \<le> p" "p < 2 ^ nat (bitlen p)"
    using bitlen_bounds [OF assms] by simp_all
  have "(2::rat) powi (bitlen p - 1) = 2 ^ nat (bitlen p - 1)"
    using bitlen_pos [OF assms] by (simp add: power_int_nonneg_exp)
  also have "\<dots> = of_int (2 ^ nat (bitlen p - 1))"
    by simp
  also have "\<dots> \<le> of_int p"
    using b(1) by (simp only: of_int_le_iff)
  finally show "2 powi (bitlen p - 1) \<le> (of_int p :: rat)" .
  have "(of_int p :: rat) < of_int (2 ^ nat (bitlen p))"
    using b(2) by (simp only: of_int_less_iff)
  also have "\<dots> = 2 ^ nat (bitlen p)"
    by simp
  also have "\<dots> = 2 powi bitlen p"
    using bitlen_nonneg [of p] by (simp add: power_int_nonneg_exp)
  finally show "(of_int p :: rat) < 2 powi bitlen p" .
qed

lemma binade_bounds:
  assumes "0 < x"
  shows "2 powi binade x \<le> x \<and> x < 2 powi (binade x + 1)"
proof -
  obtain p q where pq: "quotient_of x = (p, q)"
    by (cases "quotient_of x")
  have q: "0 < q"
    using pq by (rule quotient_of_denom_pos)
  have x: "x = of_int p / of_int q"
    using pq by (rule quotient_of_div)
  have p: "0 < p"
    using assms q unfolding x by (simp add: zero_less_divide_iff)
  let ?d = "bitlen p - bitlen q"
  have qr: "0 < (of_int q :: rat)"
    using q by simp
  have lo: "2 powi (?d - 1) < x"
  proof -
    have "?d - 1 = (bitlen p - 1) - bitlen q"
      by simp
    then have "(2::rat) powi (?d - 1) = 2 powi (bitlen p - 1) / 2 powi bitlen q"
      by (simp only: pow2_diff)
    also have "\<dots> \<le> of_int p / 2 powi bitlen q"
      using bitlen_powi(1) [OF p] by (simp add: divide_right_mono)
    also have "\<dots> < of_int p / of_int q"
      using bitlen_powi(2) [OF q] p qr by (simp add: divide_strict_left_mono)
    finally show ?thesis
      unfolding x .
  qed
  have hi: "x < 2 powi (?d + 1)"
  proof -
    have "x < 2 powi bitlen p / of_int q"
      unfolding x using bitlen_powi(2) [OF p] qr by (simp add: divide_strict_right_mono)
    also have "\<dots> \<le> 2 powi bitlen p / 2 powi (bitlen q - 1)"
      using bitlen_powi(1) [OF q] by (intro frac_le) simp_all
    also have "\<dots> = 2 powi (bitlen p - (bitlen q - 1))"
      by (simp only: pow2_diff)
    also have "bitlen p - (bitlen q - 1) = ?d + 1"
      by simp
    finally show ?thesis .
  qed
  show ?thesis
  proof (cases "2 powi ?d \<le> x")
    case True
    then have "binade x = ?d"
      by (simp add: binade_def pq)
    then show ?thesis
      using True hi by simp
  next
    case False
    then have "binade x = ?d - 1"
      by (simp add: binade_def pq)
    then show ?thesis
      using False lo by simp
  qed
qed

lemma roundTiesToEven_error: "\<bar>of_int (roundTiesToEven y) - y\<bar> \<le> 1 / 2"
proof -
  have "of_int \<lfloor>y\<rfloor> \<le> y" and "y < of_int \<lfloor>y\<rfloor> + 1"
    by linarith+
  then show ?thesis
    by (auto simp add: roundTiesToEven_def Let_def)
qed

lemma roundTiesToEven_nonneg: "0 \<le> y \<Longrightarrow> 0 \<le> roundTiesToEven y"
  by (auto simp add: roundTiesToEven_def Let_def)

lemma toDouble_nonneg: "0 \<le> x \<Longrightarrow> 0 \<le> toDouble x"
  by (auto simp add: toDouble_def Let_def roundTiesToEven_nonneg)

lemma toDouble_error: "\<bar>toDouble x - x\<bar> \<le> \<bar>x\<bar> / 2 ^ 53"
proof (cases "x = 0")
  case True
  then show ?thesis by (simp add: toDouble_def)
next
  case False
  let ?a = "\<bar>x\<bar>"
  let ?ulp = "(2::rat) powi (binade ?a - 52)"
  let ?r = "of_int (roundTiesToEven (?a / ?ulp)) :: rat"
  have a: "0 < ?a"
    using False by simp
  have ulp: "0 < ?ulp"
    by (simp add: zero_less_power_int)
  have "?ulp = 2 powi binade ?a / 2 ^ 52"
    by (simp add: power_int_diff)
  also have "\<dots> \<le> ?a / 2 ^ 52"
    using binade_bounds [OF a] by (simp add: divide_right_mono)
  finally have small: "?ulp / 2 \<le> ?a / 2 ^ 53"
    by simp
  have "\<bar>?r - ?a / ?ulp\<bar> * ?ulp \<le> 1 / 2 * ?ulp"
    using roundTiesToEven_error [of "?a / ?ulp"] ulp by (intro mult_right_mono) simp_all
  moreover have "\<bar>?r - ?a / ?ulp\<bar> * ?ulp = \<bar>?r * ?ulp - ?a\<bar>"
  proof -
    have "\<bar>?r - ?a / ?ulp\<bar> * ?ulp = \<bar>(?r - ?a / ?ulp) * ?ulp\<bar>"
      using ulp by (simp add: abs_mult)
    also have "(?r - ?a / ?ulp) * ?ulp = ?r * ?ulp - ?a"
      using ulp by (simp add: algebra_simps)
    finally show ?thesis .
  qed
  ultimately have near: "\<bar>?r * ?ulp - ?a\<bar> \<le> ?a / 2 ^ 53"
    using small by simp
  have "toDouble x - x = sgn x * (?r * ?ulp - ?a)"
    using False by (simp add: toDouble_def Let_def right_diff_distrib sgn_mult_abs)
  then have "\<bar>toDouble x - x\<bar> = \<bar>?r * ?ulp - ?a\<bar>"
    using False by (simp add: abs_mult abs_sgn_eq)
  then show ?thesis
    using near by simp
qed

lemma roundTiesToEven_bounds: "\<lfloor>y\<rfloor> \<le> roundTiesToEven y \<and> roundTiesToEven y \<le> \<lfloor>y\<rfloor> + 1"
  by (simp add: roundTiesToEven_def Let_def)

text \<open>
  The value of \<open>toDouble\<close> is a double: an integer significand between \<open>2^52\<close> and \<open>2^53\<close>
  times a power of two, the significand being the nearest integer to the scaled argument.
\<close>

lemma toDouble_significand:
  assumes "0 < x"
  shows "toDouble x = of_int (roundTiesToEven (x / 2 powi (binade x - 52))) * 2 powi (binade x - 52)"
    and "2 ^ 52 \<le> roundTiesToEven (x / 2 powi (binade x - 52))"
    and "roundTiesToEven (x / 2 powi (binade x - 52)) \<le> 2 ^ 53"
proof -
  let ?ulp = "(2::rat) powi (binade x - 52)"
  let ?y = "x / ?ulp"
  show "toDouble x = of_int (roundTiesToEven ?y) * ?ulp"
    using assms by (simp add: toDouble_def Let_def)
  have ulp: "0 < ?ulp"
    by (simp add: zero_less_power_int)
  have u: "?ulp = 2 powi binade x / 2 ^ 52"
    by (simp add: power_int_diff)
  have "2 powi binade x \<le> x" and "x < 2 powi (binade x + 1)"
    using binade_bounds [OF assms] by simp_all
  moreover have "(2::rat) powi (binade x + 1) = 2 powi binade x * 2"
    by (simp add: power_int_add)
  ultimately have "2 ^ 52 * ?ulp \<le> x" and "x < 2 ^ 53 * ?ulp"
    unfolding u by simp_all
  then have lo: "2 ^ 52 \<le> ?y" and hi: "?y < 2 ^ 53"
    using ulp by (simp_all add: pos_le_divide_eq pos_divide_less_eq)
  have "(2 ^ 52 :: int) \<le> \<lfloor>?y\<rfloor>"
    using lo by (simp add: le_floor_iff)
  then show "2 ^ 52 \<le> roundTiesToEven ?y"
    using roundTiesToEven_bounds [of ?y] by linarith
  have "\<lfloor>?y\<rfloor> < (2 ^ 53 :: int)"
    using hi by (simp add: floor_less_iff)
  then show "roundTiesToEven ?y \<le> 2 ^ 53"
    using roundTiesToEven_bounds [of ?y] by linarith
qed


text \<open>The quotients and products of the examples below.\<close>

lemma double_600_1200:
  "divDouble 600 1200 = 1 / 2" "mulDouble 800 (1 / 2) = 400"
  by code_simp+

lemma double_100_100:
  "divDouble 100 100 = 1" "mulDouble 100 1 = 100"
  by code_simp+

lemma double_4_4:
  "divDouble 4 4 = 1" "mulDouble 3 1 = 3"
  by code_simp+

lemmas double_values = double_600_1200 double_100_100 double_4_4

section \<open>The frame that draw paints\<close>

lemmas canvas_ops =
  set_width_def set_height_def set_strokeStyle_def set_fillStyle_def set_lineWidth_def
  set_lineJoin_def drawImage_def strokeRect_def fillRect_def

lemma drawBox_bitmap:
  "lineJoin (state c) = ''round'' \<Longrightarrow> bitmap (drawBox s c b) = bitmap c @ boxCommands s b"
  by (cases b) (simp add: canvas_ops Let_def)

lemma drawBox_lineJoin: "lineJoin (state (drawBox s c b)) = lineJoin (state c)"
  by (cases b) (simp add: canvas_ops Let_def)

lemma drawBox_width: "width (drawBox s c b) = width c"
  by (cases b) (simp add: canvas_ops Let_def)

lemma drawBox_height: "height (drawBox s c b) = height c"
  by (cases b) (simp add: canvas_ops Let_def)

lemma drawBox_has2d: "has2d (drawBox s c b) = has2d c"
  by (cases b) (simp add: canvas_ops Let_def)

lemma forEach_bitmap:
  "lineJoin (state c) = ''round'' \<Longrightarrow>
   bitmap (foldl (drawBox s) c dets) = bitmap c @ concat (map (boxCommands s) dets)"
proof (induction dets arbitrary: c)
  case Nil
  show ?case by simp
next
  case (Cons b bs)
  have "lineJoin (state (drawBox s c b)) = ''round''"
    using Cons.prems by (simp add: drawBox_lineJoin)
  then show ?case
    using Cons.IH [of "drawBox s c b"] Cons.prems by (simp add: drawBox_bitmap)
qed

lemma forEach_width: "width (foldl (drawBox s) c dets) = width c"
  by (induction dets arbitrary: c) (simp_all add: drawBox_width)

lemma forEach_height: "height (foldl (drawBox s) c dets) = height c"
  by (induction dets arbitrary: c) (simp_all add: drawBox_height)

lemma forEach_has2d: "has2d (foldl (drawBox s) c dets) = has2d c"
  by (induction dets arbitrary: c) (simp_all add: drawBox_has2d)

lemma drawFrame_width:
  "width (drawFrame cv ct img dets) = reflectDimension 300 (of_nat (clientWidth ct))"
  by (simp add: drawFrame_def Let_def forEach_width canvas_ops)

lemma drawFrame_height:
  "height (drawFrame cv ct img dets) =
     reflectDimension 150
       (mulDouble (of_nat (naturalHeight img))
          (divDouble (of_nat (clientWidth ct)) (of_nat (naturalWidth img))))"
  by (simp add: drawFrame_def Let_def forEach_height canvas_ops)

lemma drawFrame_has2d: "has2d (drawFrame cv ct img dets) = has2d cv"
  by (simp add: drawFrame_def Let_def forEach_has2d canvas_ops)

lemma drawFrame_bitmap:
  "bitmap (drawFrame cv ct img dets) =
     DrawImage img 0 0 (of_nat (width (drawFrame cv ct img dets)))
       (of_nat (height (drawFrame cv ct img dets)))
     # concat (map (boxCommands
         (divDouble (of_nat (clientWidth ct)) (of_nat (naturalWidth img)))) dets)"
  by (simp add: drawFrame_width drawFrame_height)
     (simp add: drawFrame_def Let_def forEach_bitmap canvas_ops)

text \<open>Nothing of the canvas as it was before the call reaches the frame.\<close>

lemma drawFrame_prior:
  "has2d cv = has2d cv' \<Longrightarrow> drawFrame cv ct img dets = drawFrame cv' ct img dets"
  by (cases cv, cases cv') (simp add: drawFrame_def Let_def canvas_ops)

lemma draw_some:
  "has2d cv \<Longrightarrow> draw (Some cv) (Some ct) (Some img) dets = Some (drawFrame cv ct img dets)"
  by simp

section \<open>Surface size\<close>

lemma reflect_of_nat: "n \<le> 2147483647 \<Longrightarrow> reflectDimension d (of_nat n) = n"
  by (simp add: reflectDimension_def toUnsignedLong_def integerPart_def Let_def)

lemma reflect_small:
  assumes "0 \<le> v" and "v < 2147483648"
  shows "int (reflectDimension d v) = \<lfloor>v\<rfloor>"
proof -
  have f0: "0 \<le> \<lfloor>v\<rfloor>"
    using assms(1) by simp
  have f1: "\<lfloor>v\<rfloor> < 2147483648"
    using assms(2) by (simp add: floor_less_iff)
  have "integerPart v = \<lfloor>v\<rfloor>"
    using assms(1) by (simp add: integerPart_def)
  then have "toUnsignedLong v = \<lfloor>v\<rfloor>"
    using f0 f1 by (simp add: toUnsignedLong_def)
  then show ?thesis
    using f0 f1 by (simp add: reflectDimension_def Let_def)
qed

text \<open>
  The display height the code computes, with its two roundings, against the exact scaled
  height.
\<close>

lemma two_roundings:
  fixes v p E :: rat
  assumes "\<bar>p - E\<bar> \<le> E / 9007199254740992" and "\<bar>v - p\<bar> \<le> p / 9007199254740992"
    and "0 \<le> E" and "E \<le> 2147483647"
  shows "\<bar>v - E\<bar> < 1 / 1048576"
  using assms by linarith

lemma scaled_height_error:
  fixes h c w :: nat
  assumes "0 < w" and "h * c \<le> 2147483647 * w"
  shows "0 \<le> mulDouble (of_nat h) (divDouble (of_nat c) (of_nat w))"
    and "\<bar>mulDouble (of_nat h) (divDouble (of_nat c) (of_nat w))
           - of_nat h * of_nat c / of_nat w\<bar> < 1 / 2 ^ 20"
proof -
  let ?s = "of_nat c / of_nat w :: rat"
  let ?E = "of_nat h * ?s"
  let ?p = "of_nat h * toDouble ?s"
  let ?v = "toDouble ?p"
  have v: "mulDouble (of_nat h) (divDouble (of_nat c) (of_nat w)) = ?v"
    by (simp add: mulDouble_def divDouble_def)
  have s0: "0 \<le> ?s"
    by simp
  have E0: "0 \<le> ?E"
    by simp
  have "(of_nat (h * c) :: rat) \<le> of_nat (2147483647 * w)"
    using assms(2) by (simp only: of_nat_le_iff)
  then have "(of_nat h * of_nat c :: rat) \<le> 2147483647 * of_nat w"
    by simp
  then have "of_nat h * of_nat c / (of_nat w :: rat) \<le> 2147483647"
    using assms(1) by (simp add: pos_divide_le_eq)
  then have E1: "?E \<le> 2147483647"
    by simp
  have "\<bar>toDouble ?s - ?s\<bar> \<le> ?s / 2 ^ 53"
    using toDouble_error [of ?s] s0 by simp
  then have "of_nat h * \<bar>toDouble ?s - ?s\<bar> \<le> of_nat h * (?s / 2 ^ 53)"
    by (intro mult_left_mono) simp_all
  moreover have "of_nat h * \<bar>toDouble ?s - ?s\<bar> = \<bar>?p - ?E\<bar>"
  proof -
    have "?p - ?E = of_nat h * (toDouble ?s - ?s)"
      by (rule right_diff_distrib [symmetric])
    then show ?thesis
      by (simp only: abs_mult abs_of_nat)
  qed
  moreover have "of_nat h * (?s / 2 ^ 53) = ?E / 9007199254740992"
    by simp
  ultimately have e2: "\<bar>?p - ?E\<bar> \<le> ?E / 9007199254740992"
    by (simp only:)
  have p0: "0 \<le> ?p"
    using toDouble_nonneg [OF s0] by simp
  have e3: "\<bar>?v - ?p\<bar> \<le> ?p / 9007199254740992"
    using toDouble_error [of ?p] p0 by simp
  show "0 \<le> mulDouble (of_nat h) (divDouble (of_nat c) (of_nat w))"
    unfolding v using p0 by (rule toDouble_nonneg)
  have "\<bar>?v - ?E\<bar> < 1 / 1048576"
    using e2 e3 E0 E1 by (rule two_roundings)
  then show "\<bar>mulDouble (of_nat h) (divDouble (of_nat c) (of_nat w))
           - of_nat h * of_nat c / of_nat w\<bar> < 1 / 2 ^ 20"
    unfolding v by simp
qed

text \<open>
  C1, as the code has it. For a decoded image of natural size \<open>(W, H)\<close> with \<open>W > 0\<close>
  (both \<open>unsigned long\<close>, so below \<open>2^32\<close>) and a container width \<open>C\<close>, with \<open>C\<close> and
  \<open>H * C / W\<close> at most 2147483647 (the range of the canvas attributes), a render call sets
  the surface width to \<open>C\<close> and the surface height to the integer part of the double that
  \<open>H * (C / W)\<close> evaluates to, the quotient rounded and then the product rounded: line 35
  assigns the product as it is and the attribute truncates it. The height is within
  \<open>1 + 2^-20\<close> of the exact \<open>H * C / W\<close>, so the aspect ratio is preserved to about one
  pixel; the height is not the rounding of \<open>H * C / W\<close>, and not always its integer part
  (an image of 1200 by 800 in 87 pixels gets 57 rows, the exact height being 58).
\<close>

theorem surface_size:
  assumes "has2d cv" and "0 < naturalWidth img"
    and "clientWidth ct \<le> 2147483647"
    and "naturalHeight img * clientWidth ct \<le> 2147483647 * naturalWidth img"
    and "naturalWidth img < 4294967296" and "naturalHeight img < 4294967296"
  shows "\<exists>c'. draw (Some cv) (Some ct) (Some img) dets = Some c' \<and>
           width c' = clientWidth ct \<and>
           int (height c') =
             \<lfloor>mulDouble (of_nat (naturalHeight img))
                (divDouble (of_nat (clientWidth ct)) (of_nat (naturalWidth img)))\<rfloor> \<and>
           \<bar>of_nat (height c')
              - (of_nat (naturalHeight img) * of_nat (clientWidth ct)
                   / of_nat (naturalWidth img) :: rat)\<bar> < 1 + 1 / 2 ^ 20"
proof -
  let ?c = "drawFrame cv ct img dets"
  let ?E = "of_nat (naturalHeight img) * of_nat (clientWidth ct)
              / of_nat (naturalWidth img) :: rat"
  let ?v = "mulDouble (of_nat (naturalHeight img))
              (divDouble (of_nat (clientWidth ct)) (of_nat (naturalWidth img)))"
  have d: "draw (Some cv) (Some ct) (Some img) dets = Some ?c"
    using assms(1) by simp
  have w: "width ?c = clientWidth ct"
    using assms(3) by (simp add: drawFrame_width reflect_of_nat)
  have v0: "0 \<le> ?v" and err: "\<bar>?v - ?E\<bar> < 1 / 2 ^ 20"
    using scaled_height_error [OF assms(2) assms(4)] by simp_all
  have "(of_nat (naturalHeight img * clientWidth ct) :: rat)
      \<le> of_nat (2147483647 * naturalWidth img)"
    using assms(4) by (simp only: of_nat_le_iff)
  then have "(of_nat (naturalHeight img) * of_nat (clientWidth ct) :: rat)
      \<le> 2147483647 * of_nat (naturalWidth img)"
    by simp
  then have E1: "?E \<le> 2147483647"
    using assms(2) by (simp add: pos_divide_le_eq)
  have c: "(1::rat) / 2 ^ 20 = 1 / 1048576"
    by simp
  have v1: "?v < 2147483648"
    using err E1 unfolding c by linarith
  have h: "int (height ?c) = \<lfloor>?v\<rfloor>"
    using v0 v1 by (simp only: drawFrame_height reflect_small)
  have "(of_nat (height ?c) :: rat) = of_int \<lfloor>?v\<rfloor>"
    using h by (metis of_int_of_nat_eq)
  moreover have "of_int \<lfloor>?v\<rfloor> \<le> ?v" and "?v < of_int \<lfloor>?v\<rfloor> + 1"
    by linarith+
  ultimately have near: "\<bar>of_nat (height ?c) - ?E\<bar> < 1 + 1 / 2 ^ 20"
    using err unfolding c by linarith
  show ?thesis
    using d w h near by blast
qed

text \<open>The sizes of the examples: a quotient that is not a double, and its products.\<close>

lemma double_87_1200:
  "\<lfloor>mulDouble 800 (divDouble 87 1200)\<rfloor> = 57"
  by code_simp

lemma double_4_3:
  "\<lfloor>mulDouble 2 (divDouble 4 3)\<rfloor> = 2"
  by code_simp

theorem surface_size_witness:
  "draw (Some blankCanvas) (Some \<lparr>clientWidth = 87\<rparr>)
      (Some \<lparr>src = ''A'', naturalWidth = 1200, naturalHeight = 800\<rparr>) [] \<noteq> None \<and>
   width (the (draw (Some blankCanvas) (Some \<lparr>clientWidth = 87\<rparr>)
      (Some \<lparr>src = ''A'', naturalWidth = 1200, naturalHeight = 800\<rparr>) [])) = 87 \<and>
   height (the (draw (Some blankCanvas) (Some \<lparr>clientWidth = 87\<rparr>)
      (Some \<lparr>src = ''A'', naturalWidth = 1200, naturalHeight = 800\<rparr>) [])) = 57"
  using surface_size [of blankCanvas "\<lparr>src = ''A'', naturalWidth = 1200, naturalHeight = 800\<rparr>"
      "\<lparr>clientWidth = 87\<rparr>" "[]"]
  by (auto simp add: blankCanvas_def double_87_1200)

text \<open>
  C1 as stated fails: an image of natural size \<open>(3, 2)\<close> in a container 4 wide gets a
  surface of height 2, while \<open>round(2 * 4 / 3) = 3\<close>.
\<close>

theorem surface_height_not_rounded:
  "height (the (draw (Some blankCanvas) (Some \<lparr>clientWidth = 4\<rparr>)
      (Some \<lparr>src = ''A'', naturalWidth = 3, naturalHeight = 2\<rparr>) [])) = 2 \<and>
   round ((2::rat) * 4 / 3) = 3"
proof -
  have v: "0 \<le> mulDouble 2 (divDouble 4 3)"
    by (simp add: mulDouble_def toDouble_nonneg divDouble_def)
  have f1: "integerPart (mulDouble 2 (divDouble 4 3)) = 2"
    using v double_4_3 by (simp add: integerPart_def)
  have f2: "\<lfloor>(19::rat) / 6\<rfloor> = 3"
    by (simp add: floor_eq_iff)
  show ?thesis
    by (simp add: blankCanvas_def drawFrame_height reflectDimension_def toUnsignedLong_def
        Let_def round_def f1 f2)
qed

section \<open>Early exit\<close>

text \<open>
  C6. While the canvas handle, the container handle or the decoded image is absent, or the
  canvas yields no 2D context, \<open>draw\<close> leaves the canvas as it was, whatever the detection
  set: it returns before line 30, and it has no failing outcome.
\<close>

theorem draw_noop:
  assumes "cvr = None \<or> ctr = None \<or> imo = None \<or> (\<exists>c. cvr = Some c \<and> \<not> has2d c)"
  shows "draw cvr ctr imo dets = cvr"
  using assms by (cases cvr; cases ctr; cases imo) auto

theorem draw_noop_witness:
  "draw (Some blankCanvas) (Some \<lparr>clientWidth = 600\<rparr>) None [(100, 100, 300, 300)]
     = Some blankCanvas \<and>
   draw None (Some \<lparr>clientWidth = 600\<rparr>)
     (Some \<lparr>src = ''A'', naturalWidth = 1200, naturalHeight = 800\<rparr>) [(100, 100, 300, 300)]
     = None"
  using draw_noop [of "Some blankCanvas" "Some \<lparr>clientWidth = 600\<rparr>" None "[(100, 100, 300, 300)]"]
    draw_noop [of None "Some \<lparr>clientWidth = 600\<rparr>"
      "Some \<lparr>src = ''A'', naturalWidth = 1200, naturalHeight = 800\<rparr>" "[(100, 100, 300, 300)]"]
  by simp

section \<open>Boxes on the surface\<close>

lemma css_shadow: "cssColor ''rgba(0,0,0,0.5)'' = Some (0, 0, 0, 1 / 2)"
  by code_simp

lemma css_highlight: "cssColor ''#4ade80'' = Some (74, 222, 128, 1)"
  by code_simp

lemma css_fill: "cssColor ''rgba(74, 222, 128, 0.15)'' = Some (74, 222, 128, 3 / 20)"
  by code_simp

lemma boxCommands_rects:
  "map paintRect (boxCommands s b) =
     (case b of (x1, y1, x2, y2) \<Rightarrow>
        let r = (x1 * s, y1 * s, (x2 - x1) * s, (y2 - y1) * s) in [r, r, r])"
  by (cases b) (simp add: Let_def)

text \<open>
  C2. For a decoded image of natural width \<open>W > 0\<close>, a container width \<open>C\<close> and
  \<open>s = C / W\<close> (the quotient of line 31, a double), every painting call that follows the
  base image is given, for its box
  \<open>(x1, y1, x2, y2)\<close> of the detection set, the rectangle with top-left corner
  \<open>(x1 * s, y1 * s)\<close> and size \<open>((x2 - x1) * s, (y2 - y1) * s)\<close>: three calls a box, box
  after box.
\<close>

theorem box_transform:
  assumes "has2d cv" and "0 < naturalWidth img"
    and "s = divDouble (of_nat (clientWidth ct)) (of_nat (naturalWidth img))"
  shows "\<exists>c'. draw (Some cv) (Some ct) (Some img) dets = Some c' \<and>
           map paintRect (tl (bitmap c')) =
             concat (map (\<lambda>(x1, y1, x2, y2).
               let r = (x1 * s, y1 * s, (x2 - x1) * s, (y2 - y1) * s) in [r, r, r]) dets)"
proof -
  let ?c = "drawFrame cv ct img dets"
  have "map paintRect (tl (bitmap ?c)) = concat (map (\<lambda>b. map paintRect (boxCommands s b)) dets)"
    by (simp add: drawFrame_bitmap assms(3) map_concat comp_def)
  also have "\<dots> = concat (map (\<lambda>(x1, y1, x2, y2).
               let r = (x1 * s, y1 * s, (x2 - x1) * s, (y2 - y1) * s) in [r, r, r]) dets)"
    by (simp only: boxCommands_rects)
  finally show ?thesis
    using draw_some [OF assms(1)] by blast
qed

theorem box_transform_witness:
  "map paintRect (tl (bitmap (the (draw (Some blankCanvas) (Some \<lparr>clientWidth = 600\<rparr>)
      (Some \<lparr>src = ''A'', naturalWidth = 1200, naturalHeight = 800\<rparr>)
      [(100, 100, 300, 300), (0, 0, 1200, 800)])))) =
   [(50, 50, 100, 100), (50, 50, 100, 100), (50, 50, 100, 100),
    (0, 0, 600, 400), (0, 0, 600, 400), (0, 0, 600, 400)]"
  using box_transform [of blankCanvas "\<lparr>src = ''A'', naturalWidth = 1200, naturalHeight = 800\<rparr>"
      "1 / 2" "\<lparr>clientWidth = 600\<rparr>" "[(100, 100, 300, 300), (0, 0, 1200, 800)]"]
  by (auto simp add: blankCanvas_def Let_def double_values)

text \<open>
  C7. With an empty detection set the frame is the base image alone, stretched over the
  whole surface: the only painting call is the \<open>drawImage\<close>, no stroke and no fill.
\<close>

theorem empty_detection_set:
  assumes "has2d cv"
  shows "\<exists>c'. draw (Some cv) (Some ct) (Some img) [] = Some c' \<and>
           bitmap c' = [DrawImage img 0 0 (of_nat (width c')) (of_nat (height c'))]"
  using draw_some [OF assms, of ct img "[]"] drawFrame_bitmap [of cv ct img "[]"] by simp

theorem empty_detection_set_witness:
  "bitmap (the (draw (Some blankCanvas) (Some \<lparr>clientWidth = 600\<rparr>)
      (Some \<lparr>src = ''A'', naturalWidth = 1200, naturalHeight = 800\<rparr>) [])) =
   [DrawImage \<lparr>src = ''A'', naturalWidth = 1200, naturalHeight = 800\<rparr> 0 0 600 400]"
proof -
  let ?ct = "\<lparr>clientWidth = 600\<rparr>"
  let ?img = "\<lparr>src = ''A'', naturalWidth = 1200, naturalHeight = 800\<rparr>"
  have h: "has2d blankCanvas"
    by (simp add: blankCanvas_def)
  have w: "width (drawFrame blankCanvas ?ct ?img []) = 600"
    by (simp add: drawFrame_width reflectDimension_def toUnsignedLong_def integerPart_def Let_def)
  have g: "height (drawFrame blankCanvas ?ct ?img []) = 400"
    by (simp add: drawFrame_height reflectDimension_def toUnsignedLong_def integerPart_def Let_def
        double_values)
  show ?thesis
    using empty_detection_set [OF h, of ?ct ?img] h w g by simp
qed

lemma boxCommands_unfold:
  "boxCommands s = (\<lambda>(x1, y1, x2, y2).
     [StrokeRect ''rgba(0,0,0,0.5)'' 5 ''round'' (x1 * s) (y1 * s) ((x2 - x1) * s) ((y2 - y1) * s),
      StrokeRect ''#4ade80'' 2 ''round'' (x1 * s) (y1 * s) ((x2 - x1) * s) ((y2 - y1) * s),
      FillRect ''rgba(74, 222, 128, 0.15)'' (x1 * s) (y1 * s) ((x2 - x1) * s) ((y2 - y1) * s)])"
  by (rule ext) (simp split: prod.splits)

text \<open>
  C8. For a decoded image of natural width \<open>W > 0\<close> and the scale factor \<open>s\<close> of line 31,
  the frame is the base image followed,
  for every box of the detection set in order, by three calls on the same scaled
  rectangle: a stroke 5 wide in \<open>rgba(0,0,0,0.5)\<close> (black at 50% opacity), then a stroke
  2 wide in the accent colour \<open>#4ade80\<close> (opaque, over the shadow), then a fill in
  \<open>rgba(74, 222, 128, 0.15)\<close>, the same red, green and blue as the accent at 15% opacity.
\<close>

theorem box_paint_order:
  assumes "has2d cv" and "0 < naturalWidth img"
    and "s = divDouble (of_nat (clientWidth ct)) (of_nat (naturalWidth img))"
  shows "\<exists>c'. draw (Some cv) (Some ct) (Some img) dets = Some c' \<and>
           bitmap c' =
             DrawImage img 0 0 (of_nat (width c')) (of_nat (height c')) #
             concat (map (\<lambda>(x1, y1, x2, y2).
               [StrokeRect ''rgba(0,0,0,0.5)'' 5 ''round''
                  (x1 * s) (y1 * s) ((x2 - x1) * s) ((y2 - y1) * s),
                StrokeRect ''#4ade80'' 2 ''round''
                  (x1 * s) (y1 * s) ((x2 - x1) * s) ((y2 - y1) * s),
                FillRect ''rgba(74, 222, 128, 0.15)''
                  (x1 * s) (y1 * s) ((x2 - x1) * s) ((y2 - y1) * s)]) dets) \<and>
           cssColor ''rgba(0,0,0,0.5)'' = Some (0, 0, 0, 1 / 2) \<and>
           cssColor ''#4ade80'' = Some (74, 222, 128, 1) \<and>
           cssColor ''rgba(74, 222, 128, 0.15)'' = Some (74, 222, 128, 3 / 20)"
proof -
  let ?c = "drawFrame cv ct img dets"
  have "bitmap ?c =
      DrawImage img 0 0 (of_nat (width ?c)) (of_nat (height ?c)) #
      concat (map (boxCommands s) dets)"
    unfolding assms(3) by (rule drawFrame_bitmap)
  then show ?thesis
    using draw_some [OF assms(1)] css_shadow css_highlight css_fill
    by (simp add: boxCommands_unfold)
qed


theorem box_paint_order_witness:
  "bitmap (the (draw (Some blankCanvas) (Some \<lparr>clientWidth = 600\<rparr>)
      (Some \<lparr>src = ''A'', naturalWidth = 1200, naturalHeight = 800\<rparr>)
      [(100, 100, 300, 300)])) =
   [DrawImage \<lparr>src = ''A'', naturalWidth = 1200, naturalHeight = 800\<rparr> 0 0 600 400,
    StrokeRect ''rgba(0,0,0,0.5)'' 5 ''round'' 50 50 100 100,
    StrokeRect ''#4ade80'' 2 ''round'' 50 50 100 100,
    FillRect ''rgba(74, 222, 128, 0.15)'' 50 50 100 100]"
proof -
  let ?ct = "\<lparr>clientWidth = 600\<rparr>"
  let ?img = "\<lparr>src = ''A'', naturalWidth = 1200, naturalHeight = 800\<rparr>"
  let ?dets = "[(100, 100, 300, 300)] :: BoundingBox list"
  have h: "has2d blankCanvas"
    by (simp add: blankCanvas_def)
  have w: "width (drawFrame blankCanvas ?ct ?img ?dets) = 600"
    by (simp add: drawFrame_width reflectDimension_def toUnsignedLong_def integerPart_def Let_def)
  have g: "height (drawFrame blankCanvas ?ct ?img ?dets) = 400"
    by (simp add: drawFrame_height reflectDimension_def toUnsignedLong_def integerPart_def Let_def
        double_values)
  have d: "draw (Some blankCanvas) (Some ?ct) (Some ?img) ?dets
      = Some (drawFrame blankCanvas ?ct ?img ?dets)"
    using h by simp
  show ?thesis
    using box_paint_order [OF h, of ?img "1 / 2" ?ct ?dets]
    unfolding d by (simp add: w g double_values)
qed

section \<open>Repeated rendering\<close>

text \<open>
  C5. For a fixed decoded image, detection set and container width, rendering again
  changes nothing: the canvas after a second call is the canvas after the first. No
  drawing state is carried between calls: whatever size, context state and painted content
  the canvas had before, the call leaves the same canvas, so the same colour at every
  point of the surface.
\<close>

theorem render_deterministic:
  assumes "has2d c" and "has2d c'"
  shows "draw (draw cvr (Some ct) (Some img) dets) (Some ct) (Some img) dets =
           draw cvr (Some ct) (Some img) dets \<and>
         draw (Some c) (Some ct) (Some img) dets = draw (Some c') (Some ct) (Some img) dets \<and>
         pixelAt tex (the (draw (Some c) (Some ct) (Some img) dets)) p =
           pixelAt tex (the (draw (Some c') (Some ct) (Some img) dets)) p"
proof -
  have "has2d c = has2d c'"
    using assms by simp
  then have same: "drawFrame c ct img dets = drawFrame c' ct img dets"
    by (rule drawFrame_prior)
  have again: "draw (draw cvr (Some ct) (Some img) dets) (Some ct) (Some img) dets =
      draw cvr (Some ct) (Some img) dets"
  proof (cases cvr)
    case None
    then show ?thesis by simp
  next
    case (Some cv)
    show ?thesis
    proof (cases "has2d cv")
      case True
      have "drawFrame (drawFrame cv ct img dets) ct img dets = drawFrame cv ct img dets"
        by (rule drawFrame_prior) (simp add: drawFrame_has2d)
      then show ?thesis
        using Some True by (simp add: drawFrame_has2d)
    next
      case False
      then show ?thesis using Some by simp
    qed
  qed
  show ?thesis
    using again same assms by simp
qed

theorem render_deterministic_witness:
  "draw (draw (Some blankCanvas) (Some \<lparr>clientWidth = 600\<rparr>)
       (Some \<lparr>src = ''A'', naturalWidth = 1200, naturalHeight = 800\<rparr>) [(100, 100, 300, 300)])
     (Some \<lparr>clientWidth = 600\<rparr>)
     (Some \<lparr>src = ''A'', naturalWidth = 1200, naturalHeight = 800\<rparr>) [(100, 100, 300, 300)] =
   draw (Some blankCanvas) (Some \<lparr>clientWidth = 600\<rparr>)
     (Some \<lparr>src = ''A'', naturalWidth = 1200, naturalHeight = 800\<rparr>) [(100, 100, 300, 300)] \<and>
   draw (Some (blankCanvas\<lparr>width := 10, bitmap := [FillRect ''#000000'' 0 0 10 10]\<rparr>))
     (Some \<lparr>clientWidth = 600\<rparr>)
     (Some \<lparr>src = ''A'', naturalWidth = 1200, naturalHeight = 800\<rparr>) [(100, 100, 300, 300)] =
   draw (Some blankCanvas) (Some \<lparr>clientWidth = 600\<rparr>)
     (Some \<lparr>src = ''A'', naturalWidth = 1200, naturalHeight = 800\<rparr>) [(100, 100, 300, 300)]"
proof -
  have h: "has2d blankCanvas"
    by (simp add: blankCanvas_def)
  have h': "has2d (blankCanvas\<lparr>width := 10, bitmap := [FillRect ''#000000'' 0 0 10 10]\<rparr>)"
    by (simp add: blankCanvas_def)
  note r = render_deterministic [OF h' h, of "Some blankCanvas" "\<lparr>clientWidth = 600\<rparr>"
        "\<lparr>src = ''A'', naturalWidth = 1200, naturalHeight = 800\<rparr>" "[(100, 100, 300, 300)]"]
  show ?thesis
    using r [THEN conjunct1] r [THEN conjunct2, THEN conjunct1] by (rule conjI)
qed

section \<open>Boxes with inverted corners\<close>







section \<open>Reordering the detection set\<close>

lemma paint_boxes_fold:
  "foldl (paintAt tex p) c (concat (map (boxCommands s) dets)) =
     foldl (\<lambda>c b. foldl (paintAt tex p) c (boxCommands s b)) c dets"
  by (induction dets arbitrary: c) simp_all

lemma untouched_box:
  "\<not> boxTouches s p b \<Longrightarrow> foldl (paintAt tex p) c (boxCommands s b) = c"
  by (cases b) (simp split: option.splits)

lemma foldl_filter_neutral:
  assumes "\<And>c b. \<not> P b \<Longrightarrow> f c b = c"
  shows "foldl f c xs = foldl f c (filter P xs)"
  using assms by (induction xs arbitrary: c) simp_all

lemma short_lists_by_mset:
  assumes "mset us = mset vs" and "length us \<le> 1"
  shows "us = vs"
proof (cases us)
  case Nil
  then show ?thesis using assms(1) by simp
next
  case (Cons u rest)
  then have "rest = []"
    using assms(2) by simp
  then show ?thesis
    using Cons assms(1) by simp
qed

lemma filter_of_reordered:
  assumes "mset xs = mset ys" and "length (filter P xs) \<le> 1"
  shows "filter P xs = filter P ys"
proof -
  have "mset (filter P xs) = mset (filter P ys)"
    using assms(1) by simp
  then show ?thesis
    using assms(2) by (rule short_lists_by_mset)
qed

lemma mset_boxes:
  "mset xs = mset ys \<Longrightarrow>
   mset (concat (map (boxCommands s) xs)) = mset (concat (map (boxCommands s) ys))"
proof -
  assume eq: "mset xs = mset ys"
  have "\<And>zs. mset (concat (map (boxCommands s) zs)) =
      sum_mset (image_mset (\<lambda>b. mset (boxCommands s b)) (mset zs))"
    by (simp add: mset_concat comp_def flip: sum_mset_sum_list)
  then show ?thesis
    using eq by simp
qed

text \<open>
  C4, as the code has it. For a decoded image of natural width \<open>W > 0\<close>, a container
  width, the scale factor \<open>s\<close> of line 31 and two detection sets that are permutations of
  each other, the rendered surfaces
  have the same size and the same painting calls, as a multiset, and the same colour at
  every point that the strokes and fills of at most one box reach. The calls are issued in
  the order of the list, later boxes over earlier ones, so where boxes overlap the colour
  may depend on the order.
\<close>

theorem reordered_boxes:
  assumes "has2d cv" and "0 < naturalWidth img"
    and "s = divDouble (of_nat (clientWidth ct)) (of_nat (naturalWidth img))"
    and "mset xs = mset ys"
  shows "\<exists>c1 c2. draw (Some cv) (Some ct) (Some img) xs = Some c1 \<and>
           draw (Some cv) (Some ct) (Some img) ys = Some c2 \<and>
           width c1 = width c2 \<and> height c1 = height c2 \<and>
           mset (bitmap c1) = mset (bitmap c2) \<and>
           (length (filter (boxTouches s p) xs) \<le> 1 \<longrightarrow> pixelAt tex c1 p = pixelAt tex c2 p)"
proof -
  let ?c1 = "drawFrame cv ct img xs"
  let ?c2 = "drawFrame cv ct img ys"
  have w: "width ?c1 = width ?c2"
    by (simp add: drawFrame_width)
  have h: "height ?c1 = height ?c2"
    by (simp add: drawFrame_height)
  have b1: "bitmap ?c1 =
      DrawImage img 0 0 (of_nat (width ?c1)) (of_nat (height ?c1)) # concat (map (boxCommands s) xs)"
    unfolding assms(3) by (rule drawFrame_bitmap)
  have b2: "bitmap ?c2 =
      DrawImage img 0 0 (of_nat (width ?c1)) (of_nat (height ?c1)) # concat (map (boxCommands s) ys)"
    unfolding assms(3) w h by (rule drawFrame_bitmap)
  have m: "mset (bitmap ?c1) = mset (bitmap ?c2)"
    using mset_boxes [OF assms(4), of s] by (simp add: b1 b2)
  have px: "pixelAt tex ?c1 p = pixelAt tex ?c2 p"
    if one: "length (filter (boxTouches s p) xs) \<le> 1"
  proof -
    let ?f = "\<lambda>c b. foldl (paintAt tex p) c (boxCommands s b)"
    have n: "\<And>c b. \<not> boxTouches s p b \<Longrightarrow> ?f c b = c"
      by (rule untouched_box)
    have "foldl ?f c0 xs = foldl ?f c0 ys" for c0
    proof -
      have "foldl ?f c0 xs = foldl ?f c0 (filter (boxTouches s p) xs)"
        using n by (rule foldl_filter_neutral)
      also have "\<dots> = foldl ?f c0 (filter (boxTouches s p) ys)"
        using filter_of_reordered [OF assms(4) one] by simp
      also have "\<dots> = foldl ?f c0 ys"
        using n by (rule foldl_filter_neutral [symmetric])
      finally show ?thesis .
    qed
    then show ?thesis
      by (simp add: pixelAt_def b1 b2 w h paint_boxes_fold)
  qed
  show ?thesis
    using draw_some [OF assms(1)] w h m px by simp
qed


theorem reordered_boxes_witness:
  "mset (bitmap (the (draw (Some blankCanvas) (Some \<lparr>clientWidth = 100\<rparr>)
      (Some \<lparr>src = ''A'', naturalWidth = 100, naturalHeight = 100\<rparr>)
      [(10, 10, 50, 50), (60, 60, 80, 80)]))) =
   mset (bitmap (the (draw (Some blankCanvas) (Some \<lparr>clientWidth = 100\<rparr>)
      (Some \<lparr>src = ''A'', naturalWidth = 100, naturalHeight = 100\<rparr>)
      [(60, 60, 80, 80), (10, 10, 50, 50)]))) \<and>
   pixelAt (\<lambda>i q. (255, 255, 255, 1))
     (the (draw (Some blankCanvas) (Some \<lparr>clientWidth = 100\<rparr>)
       (Some \<lparr>src = ''A'', naturalWidth = 100, naturalHeight = 100\<rparr>)
       [(10, 10, 50, 50), (60, 60, 80, 80)])) (50, 30) =
   pixelAt (\<lambda>i q. (255, 255, 255, 1))
     (the (draw (Some blankCanvas) (Some \<lparr>clientWidth = 100\<rparr>)
       (Some \<lparr>src = ''A'', naturalWidth = 100, naturalHeight = 100\<rparr>)
       [(60, 60, 80, 80), (10, 10, 50, 50)])) (50, 30)"
proof -
  let ?ct = "\<lparr>clientWidth = 100\<rparr>"
  let ?img = "\<lparr>src = ''A'', naturalWidth = 100, naturalHeight = 100\<rparr>"
  let ?xs = "[(10, 10, 50, 50), (60, 60, 80, 80)] :: BoundingBox list"
  let ?ys = "[(60, 60, 80, 80), (10, 10, 50, 50)] :: BoundingBox list"
  have h: "has2d blankCanvas"
    by (simp add: blankCanvas_def)
  have w: "0 < naturalWidth ?img"
    by simp
  have s: "(1::rat) = divDouble (of_nat (clientWidth ?ct)) (of_nat (naturalWidth ?img))"
    by (simp add: double_values)
  have m: "mset ?xs = mset ?ys"
    by simp
  have one: "length (filter (boxTouches 1 (50, 30)) ?xs) \<le> 1"
    by (simp add: outside_def)
  show ?thesis
    using reordered_boxes [OF h w s m, of "(50, 30)" "\<lambda>i q. (255, 255, 255, 1)"] one
    by auto
qed

text \<open>
  C4 as stated fails: at scale 1, over a white image, the point \<open>(50.5, 30)\<close> lies on the
  highlight stroke of the box \<open>(10, 10, 50, 50)\<close> and on the shadow stroke of the box
  \<open>(52.5, 20, 80, 40)\<close>. With the first box first the shadow of the second darkens the
  highlight of the first; with the boxes exchanged the highlight is painted last.
\<close>

theorem overlapping_boxes_order:
  "pixelAt (\<lambda>i q. (255, 255, 255, 1))
     (the (draw (Some blankCanvas) (Some \<lparr>clientWidth = 100\<rparr>)
       (Some \<lparr>src = ''A'', naturalWidth = 100, naturalHeight = 100\<rparr>)
       [(10, 10, 50, 50), (105 / 2, 20, 80, 40)])) (101 / 2, 30) = Some (37, 111, 64, 1) \<and>
   pixelAt (\<lambda>i q. (255, 255, 255, 1))
     (the (draw (Some blankCanvas) (Some \<lparr>clientWidth = 100\<rparr>)
       (Some \<lparr>src = ''A'', naturalWidth = 100, naturalHeight = 100\<rparr>)
       [(105 / 2, 20, 80, 40), (10, 10, 50, 50)])) (101 / 2, 30) = Some (74, 222, 128, 1)"
proof -
  let ?ct = "\<lparr>clientWidth = 100\<rparr>"
  let ?img = "\<lparr>src = ''A'', naturalWidth = 100, naturalHeight = 100\<rparr>"
  have h: "has2d blankCanvas"
    by (simp add: blankCanvas_def)
  have w: "width (drawFrame blankCanvas ?ct ?img dets) = 100" for dets
    by (simp add: drawFrame_width reflectDimension_def toUnsignedLong_def integerPart_def Let_def)
  have g: "height (drawFrame blankCanvas ?ct ?img dets) = 100" for dets
    by (simp add: drawFrame_height reflectDimension_def toUnsignedLong_def integerPart_def Let_def
        double_values)
  show ?thesis
    using h
    by (simp add: pixelAt_def drawFrame_bitmap w g css_shadow css_highlight css_fill outside_def
        double_values)
qed

section \<open>Decodes that complete out of order\<close>

text \<open>
  C3, as the code has it. Let source \<open>a\<close> begin decoding and a different source \<open>b\<close> be
  supplied before that decode completes. When the decode of \<open>a\<close> then completes, its
  image becomes the displayed image although \<open>b\<close> is the current source and still in
  flight: \<open>onload\<close> calls \<open>setImageObj\<close> without a check against the current source. The
  display reflects \<open>b\<close> once the decode of \<open>b\<close> completes after that of \<open>a\<close>; if the decode
  of \<open>b\<close> completes first, the later completion of \<open>a\<close> replaces it.
\<close>

theorem stale_decode_accepted:
  assumes "src imgA = a" and "src imgB = b" and "a \<noteq> b"
  shows "imageSrc (run (mount a) [Supply b, Loaded imgA]) = b \<and>
         imageObj (run (mount a) [Supply b, Loaded imgA]) = Some imgA \<and>
         loading (run (mount a) [Supply b, Loaded imgA]) = [b] \<and>
         imageObj (run (mount a) [Supply b, Loaded imgA, Loaded imgB]) = Some imgB \<and>
         imageObj (run (mount a) [Supply b, Loaded imgB, Loaded imgA]) = Some imgA \<and>
         imageSrc (run (mount a) [Supply b, Loaded imgB, Loaded imgA]) = b"
  using assms by (auto simp add: run_def mount_def)

theorem stale_decode_accepted_witness:
  "imageSrc (run (mount ''A'')
      [Supply ''B'', Loaded \<lparr>src = ''A'', naturalWidth = 4, naturalHeight = 3\<rparr>]) = ''B'' \<and>
   imageObj (run (mount ''A'')
      [Supply ''B'', Loaded \<lparr>src = ''A'', naturalWidth = 4, naturalHeight = 3\<rparr>])
     = Some \<lparr>src = ''A'', naturalWidth = 4, naturalHeight = 3\<rparr> \<and>
   imageObj (run (mount ''A'')
      [Supply ''B'', Loaded \<lparr>src = ''A'', naturalWidth = 4, naturalHeight = 3\<rparr>,
       Loaded \<lparr>src = ''B'', naturalWidth = 8, naturalHeight = 6\<rparr>])
     = Some \<lparr>src = ''B'', naturalWidth = 8, naturalHeight = 6\<rparr>"
  using stale_decode_accepted [of "\<lparr>src = ''A'', naturalWidth = 4, naturalHeight = 3\<rparr>" "''A''"
      "\<lparr>src = ''B'', naturalWidth = 8, naturalHeight = 6\<rparr>" "''B''"]
  by simp

text \<open>
  C3 as stated fails: with source \<open>A\<close> in flight and \<open>B\<close> supplied, the completion of
  \<open>A\<close> leaves \<open>B\<close> the current source and the image of \<open>A\<close> the one \<open>draw\<close> paints.
\<close>

theorem stale_decode_displayed:
  "imageSrc (run (mount ''A'')
      [Supply ''B'', Loaded \<lparr>src = ''A'', naturalWidth = 4, naturalHeight = 3\<rparr>]) = ''B'' \<and>
   map_option src (imageObj (run (mount ''A'')
      [Supply ''B'', Loaded \<lparr>src = ''A'', naturalWidth = 4, naturalHeight = 3\<rparr>])) = Some ''A'' \<and>
   bitmap (the (draw (Some blankCanvas) (Some \<lparr>clientWidth = 4\<rparr>)
      (imageObj (run (mount ''A'')
         [Supply ''B'', Loaded \<lparr>src = ''A'', naturalWidth = 4, naturalHeight = 3\<rparr>])) [])) =
     [DrawImage \<lparr>src = ''A'', naturalWidth = 4, naturalHeight = 3\<rparr> 0 0 4 3]"
proof -
  let ?ct = "\<lparr>clientWidth = 4\<rparr>"
  let ?img = "\<lparr>src = ''A'', naturalWidth = 4, naturalHeight = 3\<rparr>"
  have r: "run (mount ''A'') [Supply ''B'', Loaded ?img] =
      \<lparr>imageSrc = ''B'', imageObj = Some ?img, loading = [''B'']\<rparr>"
    by (simp add: run_def mount_def)
  have h: "has2d blankCanvas"
    by (simp add: blankCanvas_def)
  have w: "width (drawFrame blankCanvas ?ct ?img []) = 4"
    by (simp add: drawFrame_width reflectDimension_def toUnsignedLong_def integerPart_def Let_def)
  have g: "height (drawFrame blankCanvas ?ct ?img []) = 3"
    by (simp add: drawFrame_height reflectDimension_def toUnsignedLong_def integerPart_def Let_def
        double_values)
  show ?thesis
    using h by (simp add: r drawFrame_bitmap w g double_values)
qed

section \<open>The simulated detections\<close>

declare mockLoop.simps [simp del]

lemma mockLoop_length:
  "length (mockLoop rnd k w h cnt i acc) = length acc + nat (cnt - i)"
proof (induction rnd k w h cnt i acc rule: mockLoop.induct)
  case (1 rnd k w h cnt i acc)
  show ?case
  proof (cases "i < cnt")
    case True
    have "nat (cnt - i) = Suc (nat (cnt - (i + 1)))"
      using True by simp
    then show ?thesis
      using "1.IH" [OF True refl refl refl] True
      by (subst mockLoop.simps) (simp add: Let_def)
  next
    case False
    then show ?thesis
      by (subst mockLoop.simps) simp
  qed
qed

lemma mockLoop_boxes:
  "\<forall>j. 0 \<le> rnd j \<and> rnd j < 1 \<Longrightarrow> 0 < w \<Longrightarrow>
   \<forall>x y sz. w * (1 / 20) \<le> sz \<and> sz < w * (3 / 20) \<longrightarrow> Q (x, y, x + sz, y + sz) \<Longrightarrow>
   \<forall>b\<in>set acc. Q b \<Longrightarrow>
   \<forall>b\<in>set (mockLoop rnd k w h cnt i acc). Q b"
proof (induction rnd k w h cnt i acc rule: mockLoop.induct)
  case (1 rnd k w h cnt i acc)
  show ?case
  proof (cases "i < cnt")
    case True
    let ?sz = "rnd k * (w * (1 / 10)) + (w * (1 / 20))"
    let ?x = "rnd (k + 1) * (w - ?sz)"
    let ?y = "rnd (k + 2) * (h - ?sz)"
    have r0: "0 \<le> rnd k" and r1: "rnd k < 1"
      using "1.prems"(1) by simp_all
    have w0: "0 < w"
      using "1.prems"(2) .
    have "0 \<le> rnd k * (w * (1 / 10))"
      using r0 w0 by simp
    then have lo: "w * (1 / 20) \<le> ?sz"
      by simp
    have "rnd k * w < 1 * w"
      using r1 w0 by (rule mult_strict_right_mono)
    then have hi: "?sz < w * (3 / 20)"
      by (simp add: field_simps)
    have new: "Q (?x, ?y, ?x + ?sz, ?y + ?sz)"
      using "1.prems"(3) lo hi by blast
    have "\<forall>b\<in>set (acc @ [(?x, ?y, ?x + ?sz, ?y + ?sz)]). Q b"
      using "1.prems"(4) new by simp
    then have "\<forall>b\<in>set (mockLoop rnd (k + 3) w h cnt (i + 1)
        (acc @ [(?x, ?y, ?x + ?sz, ?y + ?sz)])). Q b"
      by (rule "1.IH" [OF True refl refl refl "1.prems"(1) "1.prems"(2) "1.prems"(3)])
    then show ?thesis
      using True by (subst mockLoop.simps) (simp add: Let_def)
  next
    case False
    then show ?thesis
      using "1.prems"(4) by (subst mockLoop.simps) simp
  qed
qed

lemma mock_count_range:
  assumes "0 \<le> r" and "r < (1::rat)"
  shows "15 \<le> \<lfloor>r * 10\<rfloor> + 15 \<and> \<lfloor>r * 10\<rfloor> + 15 \<le> 24"
proof -
  have "0 \<le> \<lfloor>r * 10\<rfloor>"
    using assms(1) by simp
  moreover have "\<lfloor>r * 10\<rfloor> < 10"
    using assms(2) by (simp add: floor_less_iff)
  ultimately show ?thesis by simp
qed

text \<open>
  C10. For an image that decodes to a natural width \<open>W > 0\<close>, with every \<open>Math.random()\<close>
  in \<open>[0, 1)\<close>, the response has \<open>log_count\<close> equal to the length of \<open>detections\<close>, that
  count is between 15 and 24, and every box is a square \<open>(x, y, x + size, y + size)\<close> with
  \<open>0 < size\<close> and \<open>0.05 * W \<le> size \<le> 0.15 * W\<close>, so \<open>x1 < x2\<close> and \<open>y1 < y2\<close>.
\<close>

theorem mock_detections:
  assumes "\<forall>j. 0 \<le> rnd j \<and> rnd j < 1" and "0 < naturalWidth img"
  shows "log_count (generateMockDetections rnd img) =
           int (length (detections (generateMockDetections rnd img))) \<and>
         15 \<le> log_count (generateMockDetections rnd img) \<and>
         log_count (generateMockDetections rnd img) \<le> 24 \<and>
         (\<forall>b\<in>set (detections (generateMockDetections rnd img)).
            \<exists>x y sz. b = (x, y, x + sz, y + sz) \<and> 0 < sz \<and>
              of_nat (naturalWidth img) * (1 / 20) \<le> sz \<and>
              sz \<le> of_nat (naturalWidth img) * (3 / 20) \<and>
              x < x + sz \<and> y < y + sz)"
proof -
  let ?w = "of_nat (naturalWidth img) :: rat"
  let ?h = "of_nat (naturalHeight img) :: rat"
  let ?cnt = "\<lfloor>rnd 0 * 10\<rfloor> + 15"
  let ?Q = "\<lambda>b. \<exists>x y sz. b = (x, y, x + sz, y + sz) \<and> 0 < sz \<and>
      ?w * (1 / 20) \<le> sz \<and> sz \<le> ?w * (3 / 20) \<and> x < x + sz \<and> y < y + sz"
  have w0: "0 < ?w"
    using assms(2) by simp
  have range: "15 \<le> ?cnt \<and> ?cnt \<le> 24"
    using assms(1) by (intro mock_count_range) simp_all
  have len: "int (length (mockLoop rnd 1 ?w ?h ?cnt 0 [])) = ?cnt"
    using range by (simp add: mockLoop_length)
  have Q: "?Q (x, y, x + sz, y + sz)" if "?w * (1 / 20) \<le> sz" and "sz < ?w * (3 / 20)" for x y sz
  proof -
    have "0 < sz"
      using w0 that(1) by (simp add: less_le_trans)
    then show ?thesis
      using that by auto
  qed
  have "\<forall>b\<in>set (mockLoop rnd 1 ?w ?h ?cnt 0 []). ?Q b"
  proof (rule mockLoop_boxes [OF assms(1) w0])
    show "\<forall>x y sz. ?w * (1 / 20) \<le> sz \<and> sz < ?w * (3 / 20) \<longrightarrow> ?Q (x, y, x + sz, y + sz)"
      using Q by blast
    show "\<forall>b\<in>set []. ?Q b"
      by simp
  qed
  then show ?thesis
    using range len by (simp add: generateMockDetections_def Let_def)
qed

theorem mock_detections_witness:
  "log_count (generateMockDetections (\<lambda>j. 1 / 2)
      \<lparr>src = ''A'', naturalWidth = 100, naturalHeight = 80\<rparr>) = 20 \<and>
   length (detections (generateMockDetections (\<lambda>j. 1 / 2)
      \<lparr>src = ''A'', naturalWidth = 100, naturalHeight = 80\<rparr>)) = 20"
  using mock_detections [of "\<lambda>j. 1 / 2" "\<lparr>src = ''A'', naturalWidth = 100, naturalHeight = 80\<rparr>"]
  by (simp add: generateMockDetections_def Let_def)

end
